theory Spec2Isabelle
  imports Complex_Main "HOL-Library.Sublist"
begin

section \<open>The service monitor of bot.py\<close>

text \<open>
  The monitor polls a scoring API once per sleep interval and compares what it fetched
  with what it remembers. One pass through the body of the \<^verbatim>\<open>while True\<close> loop of
  \<^verbatim>\<open>monitor_services\<close> is modelled as the function \<open>monitor_services_step\<close>: it takes
  the thresholds, the remembered state and the value returned by \<^verbatim>\<open>fetch_score_data\<close>,
  and returns the new state together with the messages handed to
  \<^verbatim>\<open>send_discord_message\<close>, in order. Log output and the sleep are left out.

  Scores are JSON numbers, which Python reads as unbounded integers or as binary floating
  point numbers. They are modelled as exact rationals: comparisons, subtraction, division
  and the percentage are those of the rationals. The code rounds where the model does not:
  the subtractions of lines 121, 122, 202 and 214, the quotients of lines 133 and 142 and
  the percentage of lines 206 and 218 are floating point operations as soon as a float is
  involved, and a quotient of two integers is rounded to a float as well. So the model and
  the code can part where rounding decides a threshold test or the last printed digit, and
  nothing below is stated about such inputs. The format calls of the log lines 125 to
  127, which raise OverflowError on an integer of \<open>2 ^ 1024\<close> or more, are left out with
  the log output.
\<close>

subsection \<open>Data\<close>

text \<open>The inner JSON object of one service: \<^verbatim>\<open>{"checker": ..., "components": {"attack": ..., "defense": ...}}\<close>.
  \<open>None\<close> is an absent key.\<close>

record components =
  attack :: "rat option"
  defense :: "rat option"

record service_info =
  checker :: "string option"
  components :: "components option"

text \<open>A Python dict iterates in insertion order: the payload is an association list.\<close>

type_synonym services = "(string \<times> service_info) list"

type_synonym team_data = "(string \<times> services) list"

text \<open>An entry of \<^verbatim>\<open>last_service_states\<close>; the only place that writes one stores all three keys.\<close>

record service_state =
  st_checker :: "string option"
  st_attack :: rat
  st_defense :: rat

text \<open>An entry of \<^verbatim>\<open>prev_deltas\<close>.\<close>

record delta_record =
  attack_delta :: "rat option"
  defense_delta :: "rat option"

record config =
  ATK_DEF_DROP_PERCENTAGE_THRESHOLD :: rat
  ATK_DEF_MIN_SCORE_THRESHOLD :: rat

definition default_config :: config where
  "default_config =
     \<lparr>ATK_DEF_DROP_PERCENTAGE_THRESHOLD = 1 / 2, ATK_DEF_MIN_SCORE_THRESHOLD = 10\<rparr>"

text \<open>What survives from one pass of the loop to the next: the module global
  \<^verbatim>\<open>last_service_states\<close> and the locals \<^verbatim>\<open>prev_deltas\<close> and \<^verbatim>\<open>last_tick\<close>.\<close>

record monitor_state =
  last_service_states :: "string \<rightharpoonup> service_state"
  prev_deltas :: "string \<rightharpoonup> delta_record"
  last_tick :: "string option"

definition initial_state :: monitor_state where
  "initial_state =
     \<lparr>last_service_states = Map.empty, prev_deltas = Map.empty, last_tick = None\<rparr>"

text \<open>The three lists a pass collects.\<close>

record issues =
  faulty_services :: "string list"
  attack_issue_services :: "string list"
  defense_issue_services :: "string list"

definition no_issues :: issues where
  "no_issues = \<lparr>faulty_services = [], attack_issue_services = [], defense_issue_services = []\<rparr>"

datatype error = ZeroDivisionError | KeyError

subsection \<open>Python primitives\<close>

text \<open>Float division raises on a zero divisor.\<close>

definition py_div :: "rat \<Rightarrow> rat \<Rightarrow> error + rat" where
  "py_div a b = (if b = 0 then Inl ZeroDivisionError else Inr (a / b))"

text \<open>\<^verbatim>\<open>d[k]\<close> on the payload.\<close>

definition subscript :: "services \<Rightarrow> string \<Rightarrow> error + service_info" where
  "subscript d k = (case map_of d k of None \<Rightarrow> Inl KeyError | Some v \<Rightarrow> Inr v)"

text \<open>\<^verbatim>\<open>sep.join(xs)\<close>.\<close>

fun join :: "string \<Rightarrow> string list \<Rightarrow> string" where
  "join sep [] = []"
| "join sep [x] = x"
| "join sep (x # y # ys) = x @ sep @ join sep (y # ys)"

text \<open>
  The format specifications \<^verbatim>\<open>:.2f\<close> and \<^verbatim>\<open>:+.2f\<close>: the magnitude rounded to two
  decimals, halves to the even neighbour, a minus sign for a negative value and, with
  \<^verbatim>\<open>+\<close>, a plus sign otherwise.
\<close>

definition digit_char :: "nat \<Rightarrow> char" where
  "digit_char d = ''0123456789'' ! d"

fun string_of_nat :: "nat \<Rightarrow> string" where
  "string_of_nat n =
     (if n < 10 then [digit_char n] else string_of_nat (n div 10) @ [digit_char (n mod 10)])"

declare string_of_nat.simps [simp del]

definition round_half_even :: "rat \<Rightarrow> int" where
  "round_half_even x =
     (let f = \<lfloor>x\<rfloor>; d = x - of_int f
      in if d < 1 / 2 then f else if 1 / 2 < d then f + 1 else if even f then f else f + 1)"

definition format_2f :: "bool \<Rightarrow> rat \<Rightarrow> string" where
  "format_2f signed x =
     (let n = nat (round_half_even (\<bar>x\<bar> * 100))
      in (if x < 0 then ''-'' else if signed then ''+'' else '''')
         @ string_of_nat (n div 100) @ ''.''
         @ [digit_char (n mod 100 div 10), digit_char (n mod 10)])"

subsection \<open>Reading one service\<close>

text \<open>\<^verbatim>\<open>service_info.get("components", {}).get("attack", 0.0)\<close> and its sibling.\<close>

definition current_attack_score :: "service_info \<Rightarrow> rat" where
  "current_attack_score service_info =
     (case components service_info of None \<Rightarrow> 0
      | Some c \<Rightarrow> (case attack c of None \<Rightarrow> 0 | Some a \<Rightarrow> a))"

definition current_defense_score :: "service_info \<Rightarrow> rat" where
  "current_defense_score service_info =
     (case components service_info of None \<Rightarrow> 0
      | Some c \<Rightarrow> (case defense c of None \<Rightarrow> 0 | Some a \<Rightarrow> a))"

text \<open>\<^verbatim>\<open>last_service_states.get(service_name, {}).get("attack", None)\<close> and its sibling.\<close>

definition prev_attack_score :: "(string \<rightharpoonup> service_state) \<Rightarrow> string \<Rightarrow> rat option" where
  "prev_attack_score states service_name = map_option st_attack (states service_name)"

definition prev_defense_score :: "(string \<rightharpoonup> service_state) \<Rightarrow> string \<Rightarrow> rat option" where
  "prev_defense_score states service_name = map_option st_defense (states service_name)"

text \<open>\<^verbatim>\<open>current - prev if prev is not None else None\<close>.\<close>

definition score_delta :: "rat \<Rightarrow> rat option \<Rightarrow> rat option" where
  "score_delta current prev = (case prev of None \<Rightarrow> None | Some p \<Rightarrow> Some (current - p))"

text \<open>\<^verbatim>\<open>prev_deltas_snapshot.get(service_name, {}).get("attack_delta", None)\<close> and its sibling.\<close>

definition prev_attack_delta :: "(string \<rightharpoonup> delta_record) \<Rightarrow> string \<Rightarrow> rat option" where
  "prev_attack_delta snapshot service_name =
     (case snapshot service_name of None \<Rightarrow> None | Some r \<Rightarrow> attack_delta r)"

definition prev_defense_delta :: "(string \<rightharpoonup> delta_record) \<Rightarrow> string \<Rightarrow> rat option" where
  "prev_defense_delta snapshot service_name =
     (case snapshot service_name of None \<Rightarrow> None | Some r \<Rightarrow> defense_delta r)"

subsection \<open>The per-service checks of a new tick\<close>

text \<open>Lines 131 to 135 (attack) and 140 to 144 (defense) are the same test on different
  numbers: does the delta qualify as a drop against the previous delta?\<close>

definition delta_drop_alert :: "config \<Rightarrow> rat option \<Rightarrow> rat option \<Rightarrow> error + bool" where
  "delta_drop_alert cfg delta prev_delta =
     (case delta of None \<Rightarrow> Inr False
      | Some d \<Rightarrow>
        (case prev_delta of None \<Rightarrow> Inr False
         | Some p \<Rightarrow>
           if p \<noteq> 0 then
             if d < p then
               (case py_div \<bar>d - p\<bar> \<bar>p\<bar> of Inl e \<Rightarrow> Inl e
                | Inr drop_percentage \<Rightarrow>
                    Inr (ATK_DEF_DROP_PERCENTAGE_THRESHOLD cfg \<le> drop_percentage
                         \<and> ATK_DEF_MIN_SCORE_THRESHOLD cfg \<le> \<bar>p\<bar>))
             else Inr False
           else Inr False))"

text \<open>Lines 148 to 152.\<close>

definition checker_alert :: "(string \<rightharpoonup> service_state) \<Rightarrow> string \<Rightarrow> string option \<Rightarrow> bool" where
  "checker_alert states service_name current_checker_status =
     (case states service_name of None \<Rightarrow> False
      | Some prev_state \<Rightarrow>
          (st_checker prev_state = Some ''SUCCESS'' \<or> st_checker prev_state = Some ''RECOVERING'')
          \<and> (current_checker_status = Some ''OFFLINE'' \<or> current_checker_status = Some ''MUMBLE''))"

text \<open>
  The body of the loop of lines 115 to 161 for one service. It reads the snapshot of
  \<^verbatim>\<open>prev_deltas\<close> taken at line 114 and \<^verbatim>\<open>last_service_states\<close>, appends to the
  three lists and overwrites the entry of the service in the live \<^verbatim>\<open>prev_deltas\<close>.
\<close>

definition process_service ::
  "config \<Rightarrow> (string \<rightharpoonup> delta_record) \<Rightarrow> (string \<rightharpoonup> service_state) \<Rightarrow>
   string \<times> service_info \<Rightarrow> (string \<rightharpoonup> delta_record) \<times> issues \<Rightarrow>
   error + (string \<rightharpoonup> delta_record) \<times> issues" where
  "process_service cfg snapshot states item acc =
     (let service_name = fst item; service_info = snd item;
          live = fst acc; found = snd acc;
          current_checker_status = checker service_info;
          a_delta = score_delta (current_attack_score service_info) (prev_attack_score states service_name);
          d_delta = score_delta (current_defense_score service_info) (prev_defense_score states service_name)
      in case delta_drop_alert cfg a_delta (prev_attack_delta snapshot service_name) of
           Inl e \<Rightarrow> Inl e
         | Inr atk \<Rightarrow>
           (case delta_drop_alert cfg d_delta (prev_defense_delta snapshot service_name) of
              Inl e \<Rightarrow> Inl e
            | Inr dfn \<Rightarrow>
                Inr (live(service_name \<mapsto> \<lparr>attack_delta = a_delta, defense_delta = d_delta\<rparr>),
                     \<lparr>faulty_services =
                        (if checker_alert states service_name current_checker_status
                         then faulty_services found @ [service_name] else faulty_services found),
                      attack_issue_services =
                        (if atk then attack_issue_services found @ [service_name]
                         else attack_issue_services found),
                      defense_issue_services =
                        (if dfn then defense_issue_services found @ [service_name]
                         else defense_issue_services found)\<rparr>)))"

fun process_services ::
  "config \<Rightarrow> (string \<rightharpoonup> delta_record) \<Rightarrow> (string \<rightharpoonup> service_state) \<Rightarrow>
   services \<Rightarrow> (string \<rightharpoonup> delta_record) \<times> issues \<Rightarrow>
   error + (string \<rightharpoonup> delta_record) \<times> issues" where
  "process_services cfg snapshot states [] acc = Inr acc"
| "process_services cfg snapshot states (item # rest) acc =
     (case process_service cfg snapshot states item acc of
        Inl e \<Rightarrow> Inl e
      | Inr acc' \<Rightarrow> process_services cfg snapshot states rest acc')"

subsection \<open>The repeated poll\<close>

text \<open>Lines 165 to 177: the only place that fills \<^verbatim>\<open>current_service_states\<close>.\<close>

fun repeated_poll_states ::
  "services \<Rightarrow> (string \<rightharpoonup> service_state) \<Rightarrow> (string \<rightharpoonup> service_state)" where
  "repeated_poll_states [] current_service_states = current_service_states"
| "repeated_poll_states (item # rest) current_service_states =
     repeated_poll_states rest
       (current_service_states(fst item \<mapsto>
          \<lparr>st_checker = checker (snd item),
           st_attack = current_attack_score (snd item),
           st_defense = current_defense_score (snd item)\<rparr>))"

subsection \<open>The alert messages\<close>

text \<open>Lines 185 to 188.\<close>

definition down_msg :: "services \<Rightarrow> string \<Rightarrow> error + string" where
  "down_msg current_team_services service_name =
     (case subscript current_team_services service_name of Inl e \<Rightarrow> Inl e
      | Inr service_info \<Rightarrow>
          (let current_status = (case checker service_info of None \<Rightarrow> ''OFFLINE'' | Some s \<Rightarrow> s);
               status_term = (if current_status = ''OFFLINE'' then ''offline'' else ''mumble'')
           in Inr ([CHR 0x60] @ service_name @ [CHR 0x60] @ '' is '' @ [CHR 0x60] @ status_term @ [CHR 0x60])))"

text \<open>Lines 203 to 207 and 215 to 219, with the word \<^verbatim>\<open>ATTACK\<close> or \<^verbatim>\<open>DEFENSE\<close> as
  \<open>kind\<close>: the line of one service, if both deltas are there.\<close>

definition issue_line ::
  "string \<Rightarrow> string \<Rightarrow> rat option \<Rightarrow> rat option \<Rightarrow> error + string option" where
  "issue_line kind service_name previous_delta current_delta =
     (case previous_delta of None \<Rightarrow> Inr None
      | Some p \<Rightarrow>
        (case current_delta of None \<Rightarrow> Inr None
         | Some c \<Rightarrow>
           (case (if p \<noteq> 0
                  then (case py_div (c - p) \<bar>p\<bar> of Inl e \<Rightarrow> Inl e | Inr q \<Rightarrow> Inr (q * 100))
                  else Inr 0) of
              Inl e \<Rightarrow> Inl e
            | Inr percent_change \<Rightarrow>
                Inr (Some ([CHR 0x60] @ service_name @ [CHR 0x60] @ '' has '' @ [CHR 0x60] @ kind
                           @ [CHR 0x60] @ '' issue'' @ [CHR 0x0A] @ ''-# ''
                           @ format_2f False \<bar>percent_change\<bar> @ ''% change (''
                           @ format_2f True p @ ''->'' @ format_2f True c @ '')'')))))"

text \<open>Lines 197 to 207.\<close>

definition atk_msg ::
  "(string \<rightharpoonup> delta_record) \<Rightarrow> (string \<rightharpoonup> service_state) \<Rightarrow> services \<Rightarrow> string \<Rightarrow>
   error + string option" where
  "atk_msg snapshot states current_team_services service_name =
     (case subscript current_team_services service_name of Inl e \<Rightarrow> Inl e
      | Inr service_info \<Rightarrow>
          issue_line ''ATTACK'' service_name (prev_attack_delta snapshot service_name)
            (score_delta (current_attack_score service_info) (prev_attack_score states service_name)))"

text \<open>Lines 209 to 219.\<close>

definition def_msg ::
  "(string \<rightharpoonup> delta_record) \<Rightarrow> (string \<rightharpoonup> service_state) \<Rightarrow> services \<Rightarrow> string \<Rightarrow>
   error + string option" where
  "def_msg snapshot states current_team_services service_name =
     (case subscript current_team_services service_name of Inl e \<Rightarrow> Inl e
      | Inr service_info \<Rightarrow>
          issue_line ''DEFENSE'' service_name (prev_defense_delta snapshot service_name)
            (score_delta (current_defense_score service_info) (prev_defense_score states service_name)))"

text \<open>A \<^verbatim>\<open>for\<close> loop that appends the line of each name, stopping at the first error.\<close>

fun collect :: "(string \<Rightarrow> error + string option) \<Rightarrow> string list \<Rightarrow> error + string list" where
  "collect f [] = Inr []"
| "collect f (service_name # rest) =
     (case f service_name of Inl e \<Rightarrow> Inl e
      | Inr line \<Rightarrow>
        (case collect f rest of Inl e \<Rightarrow> Inl e
         | Inr lines \<Rightarrow> Inr ((case line of None \<Rightarrow> [] | Some l \<Rightarrow> [l]) @ lines)))"

definition everyone :: string where
  "everyone = [CHR 0x0A] @ ''@everyone''"

text \<open>Line 188 appends one line for every faulty service.\<close>

definition down_line :: "services \<Rightarrow> string \<Rightarrow> error + string option" where
  "down_line current_team_services service_name =
     (case down_msg current_team_services service_name of Inl e \<Rightarrow> Inl e | Inr l \<Rightarrow> Inr (Some l))"

text \<open>Lines 183 to 190: the messages sent for the faulty services.\<close>

definition down_alert :: "services \<Rightarrow> string list \<Rightarrow> error + string list" where
  "down_alert current_team_services faulty =
     (if faulty \<noteq> [] then
        (case collect (down_line current_team_services) faulty of
           Inl e \<Rightarrow> Inl e
         | Inr down_msgs \<Rightarrow> Inr [join [CHR 0x0A] down_msgs @ everyone])
      else Inr [])"

text \<open>Lines 193 to 222: the messages sent for the score drops.\<close>

definition drop_alert ::
  "(string \<rightharpoonup> delta_record) \<Rightarrow> (string \<rightharpoonup> service_state) \<Rightarrow> services \<Rightarrow> issues \<Rightarrow>
   error + string list" where
  "drop_alert snapshot states current_team_services found =
     (case collect (atk_msg snapshot states current_team_services) (attack_issue_services found) of
        Inl e \<Rightarrow> Inl e
      | Inr atk_msgs \<Rightarrow>
        (case collect (def_msg snapshot states current_team_services) (defense_issue_services found) of
           Inl e \<Rightarrow> Inl e
         | Inr def_msgs \<Rightarrow>
             if atk_msgs \<noteq> [] \<or> def_msgs \<noteq> []
             then Inr [join [CHR 0x0A] (atk_msgs @ def_msgs) @ everyone]
             else Inr []))"

text \<open>Lines 181 to 222.\<close>

definition send_alerts ::
  "(string \<rightharpoonup> delta_record) \<Rightarrow> (string \<rightharpoonup> service_state) \<Rightarrow> services \<Rightarrow> issues \<Rightarrow>
   error + string list" where
  "send_alerts snapshot states current_team_services found =
     (case down_alert current_team_services (faulty_services found) of
        Inl e \<Rightarrow> Inl e
      | Inr down \<Rightarrow>
        (case drop_alert snapshot states current_team_services found of
           Inl e \<Rightarrow> Inl e
         | Inr drops \<Rightarrow> Inr (down @ drops)))"

subsection \<open>One pass of the loop\<close>

text \<open>
  Lines 92 to 228. A failed fetch (\<open>None\<close>), an empty document and an empty service
  mapping all \<^verbatim>\<open>continue\<close>. Otherwise \<^verbatim>\<open>current_service_states\<close> starts empty at line 104;
  the branch of a new tick never writes to it, the branch of a repeated poll fills it,
  and line 225 stores it as \<^verbatim>\<open>last_service_states\<close> in both cases. On a repeated poll the
  three lists stay empty, so the snapshot handed to the alert section is never read.
\<close>

definition monitor_services_step ::
  "config \<Rightarrow> monitor_state \<Rightarrow> team_data option \<Rightarrow> error + monitor_state \<times> string list" where
  "monitor_services_step cfg st fetched =
     (case fetched of None \<Rightarrow> Inr (st, [])
      | Some [] \<Rightarrow> Inr (st, [])
      | Some ((CurrTick, current_team_services) # other_ticks) \<Rightarrow>
          if current_team_services = [] then Inr (st, [])
          else if last_tick st \<noteq> Some CurrTick then
            (let prev_deltas_snapshot = prev_deltas st
             in case process_services cfg prev_deltas_snapshot (last_service_states st)
                       current_team_services (prev_deltas st, no_issues) of
                  Inl e \<Rightarrow> Inl e
                | Inr (live, found) \<Rightarrow>
                  (case send_alerts prev_deltas_snapshot (last_service_states st)
                          current_team_services found of
                     Inl e \<Rightarrow> Inl e
                   | Inr messages \<Rightarrow>
                       Inr (\<lparr>last_service_states = Map.empty, prev_deltas = live,
                             last_tick = Some CurrTick\<rparr>, messages)))
          else
            (case send_alerts (prev_deltas st) (last_service_states st)
                    current_team_services no_issues of
               Inl e \<Rightarrow> Inl e
             | Inr messages \<Rightarrow>
                 Inr (st\<lparr>last_service_states :=
                           repeated_poll_states current_team_services Map.empty\<rparr>, messages)))"

text \<open>The loop over a finite sequence of fetch results, collecting every message sent.\<close>

fun monitor_services ::
  "config \<Rightarrow> monitor_state \<Rightarrow> team_data option list \<Rightarrow> error + monitor_state \<times> string list" where
  "monitor_services cfg st [] = Inr (st, [])"
| "monitor_services cfg st (fetched # later) =
     (case monitor_services_step cfg st fetched of
        Inl e \<Rightarrow> Inl e
      | Inr (st', messages) \<Rightarrow>
        (case monitor_services cfg st' later of
           Inl e \<Rightarrow> Inl e
         | Inr (st'', messages') \<Rightarrow> Inr (st'', messages @ messages')))"

subsection \<open>Notions used in the statements and proofs\<close>

text \<open>
  None of what follows is code of the monitor. \<open>spec_regression\<close> is the qualifying
  condition in the words of the specification (section 4.2): both deltas exist, the previous
  one is not zero, the current one is smaller, the drop percentage reaches the threshold
  and the previous delta reaches the minimum. It is compared with \<open>delta_drop_alert\<close>,
  which is the code, in \<open>delta_drop_alert_eq\<close>.
\<close>

definition spec_regression :: "config \<Rightarrow> rat option \<Rightarrow> rat option \<Rightarrow> bool" where
  "spec_regression cfg previousDelta currentDelta =
     (case previousDelta of None \<Rightarrow> False
      | Some p \<Rightarrow>
        (case currentDelta of None \<Rightarrow> False
         | Some c \<Rightarrow>
             p \<noteq> 0 \<and> c < p
             \<and> ATK_DEF_DROP_PERCENTAGE_THRESHOLD cfg \<le> \<bar>c - p\<bar> / \<bar>p\<bar>
             \<and> ATK_DEF_MIN_SCORE_THRESHOLD cfg \<le> \<bar>p\<bar>))"

text \<open>The record that line 158 writes for one service, and the three tests of the loop body
  as predicates on an item of the payload.\<close>

definition new_delta :: "(string \<rightharpoonup> service_state) \<Rightarrow> string \<times> service_info \<Rightarrow> delta_record" where
  "new_delta states item =
     \<lparr>attack_delta = score_delta (current_attack_score (snd item)) (prev_attack_score states (fst item)),
      defense_delta = score_delta (current_defense_score (snd item)) (prev_defense_score states (fst item))\<rparr>"

definition attack_dropped ::
  "config \<Rightarrow> (string \<rightharpoonup> delta_record) \<Rightarrow> (string \<rightharpoonup> service_state) \<Rightarrow> string \<times> service_info \<Rightarrow> bool" where
  "attack_dropped cfg snapshot states item =
     spec_regression cfg (prev_attack_delta snapshot (fst item)) (attack_delta (new_delta states item))"

definition defense_dropped ::
  "config \<Rightarrow> (string \<rightharpoonup> delta_record) \<Rightarrow> (string \<rightharpoonup> service_state) \<Rightarrow> string \<times> service_info \<Rightarrow> bool" where
  "defense_dropped cfg snapshot states item =
     spec_regression cfg (prev_defense_delta snapshot (fst item)) (defense_delta (new_delta states item))"

definition checker_failed :: "(string \<rightharpoonup> service_state) \<Rightarrow> string \<times> service_info \<Rightarrow> bool" where
  "checker_failed states item = checker_alert states (fst item) (checker (snd item))"

text \<open>Storing one value per item of the payload, in order: what the two loops do to
  \<^verbatim>\<open>prev_deltas\<close> and to \<^verbatim>\<open>current_service_states\<close>.\<close>

fun store_all :: "(string \<times> 'a \<Rightarrow> 'v) \<Rightarrow> (string \<times> 'a) list \<Rightarrow> (string \<rightharpoonup> 'v) \<Rightarrow> (string \<rightharpoonup> 'v)" where
  "store_all f [] m = m"
| "store_all f (item # rest) m = store_all f rest (m(fst item \<mapsto> f item))"

definition state_of :: "string \<times> service_info \<Rightarrow> service_state" where
  "state_of item =
     \<lparr>st_checker = checker (snd item), st_attack = current_attack_score (snd item),
      st_defense = current_defense_score (snd item)\<rparr>"

text \<open>The three lists of a new tick in closed form (\<open>process_services_tick\<close>).\<close>

definition tick_issues ::
  "config \<Rightarrow> (string \<rightharpoonup> delta_record) \<Rightarrow> (string \<rightharpoonup> service_state) \<Rightarrow> services \<Rightarrow> issues" where
  "tick_issues cfg snapshot states svcs =
     \<lparr>faulty_services = map fst (filter (checker_failed states) svcs),
      attack_issue_services = map fst (filter (attack_dropped cfg snapshot states) svcs),
      defense_issue_services = map fst (filter (defense_dropped cfg snapshot states) svcs)\<rparr>"

text \<open>The text of a score line and of a down line, when nothing is missing.\<close>

definition drop_text :: "string \<Rightarrow> string \<Rightarrow> rat \<Rightarrow> rat \<Rightarrow> string" where
  "drop_text kind service_name p c =
     [CHR 0x60] @ service_name @ [CHR 0x60] @ '' has '' @ [CHR 0x60] @ kind
     @ [CHR 0x60] @ '' issue'' @ [CHR 0x0A] @ ''-# ''
     @ format_2f False \<bar>(c - p) / \<bar>p\<bar> * 100\<bar> @ ''% change (''
     @ format_2f True p @ ''->'' @ format_2f True c @ '')''"

definition down_text :: "string \<Rightarrow> service_info \<Rightarrow> string" where
  "down_text service_name service_info =
     [CHR 0x60] @ service_name @ [CHR 0x60] @ '' is '' @ [CHR 0x60]
     @ (if checker service_info = None \<or> checker service_info = Some ''OFFLINE''
        then ''offline'' else ''mumble'') @ [CHR 0x60]"

text \<open>The attack and the defense score go through the same steps; these pick one of the two.\<close>

datatype score_kind = ATTACK | DEFENSE

definition issue_services :: "score_kind \<Rightarrow> issues \<Rightarrow> string list" where
  "issue_services kind found =
     (case kind of ATTACK \<Rightarrow> attack_issue_services found | DEFENSE \<Rightarrow> defense_issue_services found)"

definition prev_delta :: "score_kind \<Rightarrow> (string \<rightharpoonup> delta_record) \<Rightarrow> string \<Rightarrow> rat option" where
  "prev_delta kind snapshot service_name =
     (case kind of ATTACK \<Rightarrow> prev_attack_delta snapshot service_name
      | DEFENSE \<Rightarrow> prev_defense_delta snapshot service_name)"

definition current_delta ::
  "score_kind \<Rightarrow> (string \<rightharpoonup> service_state) \<Rightarrow> string \<times> service_info \<Rightarrow> rat option" where
  "current_delta kind states item =
     (case kind of
        ATTACK \<Rightarrow> score_delta (current_attack_score (snd item)) (prev_attack_score states (fst item))
      | DEFENSE \<Rightarrow> score_delta (current_defense_score (snd item)) (prev_defense_score states (fst item)))"

definition issue_msg ::
  "score_kind \<Rightarrow> (string \<rightharpoonup> delta_record) \<Rightarrow> (string \<rightharpoonup> service_state) \<Rightarrow> services \<Rightarrow> string \<Rightarrow>
   error + string option" where
  "issue_msg kind snapshot states current_team_services service_name =
     (case kind of ATTACK \<Rightarrow> atk_msg snapshot states current_team_services service_name
      | DEFENSE \<Rightarrow> def_msg snapshot states current_team_services service_name)"

definition kind_word :: "score_kind \<Rightarrow> string" where
  "kind_word kind = (case kind of ATTACK \<Rightarrow> ''ATTACK'' | DEFENSE \<Rightarrow> ''DEFENSE'')"

text \<open>A fetch result that starts no new tick when \<open>t\<close> was processed last: a failed fetch,
  an empty document, an empty service mapping, or the tick id \<open>t\<close> again.\<close>

definition same_tick :: "string \<Rightarrow> team_data option \<Rightarrow> bool" where
  "same_tick t fetched =
     (case fetched of None \<Rightarrow> True
      | Some [] \<Rightarrow> True
      | Some ((CurrTick, current_team_services) # other_ticks) \<Rightarrow>
          current_team_services = [] \<or> CurrTick = t)"

subsection \<open>Example inputs\<close>

abbreviation service :: "string \<Rightarrow> string \<Rightarrow> rat \<Rightarrow> string \<times> service_info" where
  "service name status atk \<equiv>
     (name, \<lparr>checker = Some status, components = Some \<lparr>attack = Some atk, defense = None\<rparr>\<rparr>)"

abbreviation poll :: "string \<Rightarrow> services \<Rightarrow> team_data option" where
  "poll tick svcs \<equiv> Some [(tick, svcs)]"

abbreviation seen :: "string \<Rightarrow> rat \<Rightarrow> service_state" where
  "seen status atk \<equiv> \<lparr>st_checker = Some status, st_attack = atk, st_defense = 0\<rparr>"

abbreviation deltas :: "rat option \<Rightarrow> rat option \<Rightarrow> delta_record" where
  "deltas a d \<equiv> \<lparr>attack_delta = a, defense_delta = d\<rparr>"

section \<open>Basic facts\<close>

lemma delta_drop_alert_eq:
  "delta_drop_alert cfg delta previous = Inr (spec_regression cfg previous delta)"
  by (simp add: delta_drop_alert_def spec_regression_def py_div_def split: option.split)

lemma process_service_eq:
  "process_service cfg snapshot states item (live, found) =
     Inr (live(fst item \<mapsto> new_delta states item),
          \<lparr>faulty_services = faulty_services found @ map fst (filter (checker_failed states) [item]),
           attack_issue_services =
             attack_issue_services found @ map fst (filter (attack_dropped cfg snapshot states) [item]),
           defense_issue_services =
             defense_issue_services found @ map fst (filter (defense_dropped cfg snapshot states) [item])\<rparr>)"
  by (simp add: process_service_def delta_drop_alert_eq new_delta_def attack_dropped_def
      defense_dropped_def checker_failed_def Let_def)

lemma process_services_eq:
  "process_services cfg snapshot states svcs (live, found) =
     Inr (store_all (new_delta states) svcs live,
          \<lparr>faulty_services = faulty_services found @ map fst (filter (checker_failed states) svcs),
           attack_issue_services =
             attack_issue_services found @ map fst (filter (attack_dropped cfg snapshot states) svcs),
           defense_issue_services =
             defense_issue_services found @ map fst (filter (defense_dropped cfg snapshot states) svcs)\<rparr>)"
proof (induction svcs arbitrary: live found)
  case Nil
  show ?case by simp
next
  case (Cons item rest)
  show ?case
    by (simp add: process_service_eq Cons.IH del: fun_upd_apply)
qed

lemma repeated_poll_states_eq:
  "repeated_poll_states svcs m = store_all state_of svcs m"
  by (induction svcs arbitrary: m) (simp_all add: state_of_def)

lemma store_all_absent:
  "name \<notin> fst ` set svcs \<Longrightarrow> store_all f svcs m name = m name"
  by (induction svcs arbitrary: m) auto


lemma process_services_tick:
  "process_services cfg snapshot states svcs (live, no_issues) =
     Inr (store_all (new_delta states) svcs live, tick_issues cfg snapshot states svcs)"
  by (simp add: process_services_eq tick_issues_def no_issues_def)

lemma subscript_present: "map_of svcs n = Some i \<Longrightarrow> subscript svcs n = Inr i"
  by (simp add: subscript_def)

lemma map_of_member_ex: "n \<in> fst ` set svcs \<Longrightarrow> \<exists>i. map_of svcs n = Some i"
  by (induction svcs) auto

lemma map_of_member:
  assumes "n \<in> fst ` set svcs"
  obtains i where "map_of svcs n = Some i"
  using map_of_member_ex [OF assms] by (elim exE)

lemma down_msg_present: "map_of svcs n = Some i \<Longrightarrow> down_msg svcs n = Inr (down_text n i)"
  by (auto simp: down_msg_def subscript_present down_text_def Let_def split: option.split)

lemma issue_line_nonzero:
  "p \<noteq> 0 \<Longrightarrow> issue_line kind n (Some p) (Some c) = Inr (Some (drop_text kind n p c))"
  by (simp add: issue_line_def py_div_def drop_text_def)

lemma collect_lines:
  "(\<And>n. n \<in> set ns \<Longrightarrow> \<exists>l. f n = Inr (Some l)) \<Longrightarrow>
   \<exists>lines. collect f ns = Inr lines \<and> map (\<lambda>l. Inr (Some l)) lines = map f ns"
proof (induction ns)
  case Nil
  show ?case by simp
next
  case (Cons n ns)
  from Cons.prems obtain l where l: "f n = Inr (Some l)" by auto
  from Cons obtain lines where "collect f ns = Inr lines" "map (\<lambda>l. Inr (Some l)) lines = map f ns"
    by auto
  with l show ?case by simp
qed

lemma collect_member:
  assumes "collect f ns = Inr lines" "map (\<lambda>l. Inr (Some l)) lines = map f ns"
    and "n \<in> set ns" "f n = Inr (Some l)"
  shows "l \<in> set lines"
proof -
  from assms(3,4) have "Inr (Some l) \<in> set (map f ns)" by force
  with assms(2) have "Inr (Some l) \<in> set (map (\<lambda>l. Inr (Some l) :: error + string option) lines)" by simp
  then show ?thesis by auto
qed

lemma spec_regression_Some:
  "spec_regression cfg prev cur \<Longrightarrow> \<exists>p c. prev = Some p \<and> cur = Some c \<and> p \<noteq> 0"
  by (auto simp: spec_regression_def split: option.splits)

lemma atk_msg_flagged:
  assumes "(n, i) \<in> set svcs" "attack_dropped cfg snapshot states (n, i)"
  shows "\<exists>l. atk_msg snapshot states svcs n = Inr (Some l)"
proof -
  from assms(1) have "n \<in> fst ` set svcs" by force
  then obtain i0 where i0: "map_of svcs n = Some i0" by (rule map_of_member)
  from assms(2) have "spec_regression cfg (prev_attack_delta snapshot n) (attack_delta (new_delta states (n, i)))"
    by (simp add: attack_dropped_def)
  from spec_regression_Some [OF this] obtain p c where p: "prev_attack_delta snapshot n = Some p" "p \<noteq> 0"
    and c: "attack_delta (new_delta states (n, i)) = Some c"
    by blast
  from c obtain a where "prev_attack_score states n = Some a"
    by (auto simp: new_delta_def score_delta_def split: option.splits)
  with i0 p show ?thesis
    by (simp add: atk_msg_def subscript_present score_delta_def issue_line_nonzero)
qed

lemma def_msg_flagged:
  assumes "(n, i) \<in> set svcs" "defense_dropped cfg snapshot states (n, i)"
  shows "\<exists>l. def_msg snapshot states svcs n = Inr (Some l)"
proof -
  from assms(1) have "n \<in> fst ` set svcs" by force
  then obtain i0 where i0: "map_of svcs n = Some i0" by (rule map_of_member)
  from assms(2) have "spec_regression cfg (prev_defense_delta snapshot n) (defense_delta (new_delta states (n, i)))"
    by (simp add: defense_dropped_def)
  from spec_regression_Some [OF this] obtain p c where p: "prev_defense_delta snapshot n = Some p" "p \<noteq> 0"
    and c: "defense_delta (new_delta states (n, i)) = Some c"
    by blast
  from c obtain a where "prev_defense_score states n = Some a"
    by (auto simp: new_delta_def score_delta_def split: option.splits)
  with i0 p show ?thesis
    by (simp add: def_msg_def subscript_present score_delta_def issue_line_nonzero)
qed

lemma down_alert_tick:
  "\<exists>down. down_alert svcs (faulty_services (tick_issues cfg snapshot states svcs)) = Inr down"
proof -
  let ?f = "down_line svcs"
  have one: "\<exists>l. ?f n = Inr (Some l)" if "n \<in> set (faulty_services (tick_issues cfg snapshot states svcs))" for n
  proof -
    from that have "n \<in> fst ` set svcs" by (auto simp: tick_issues_def)
    then obtain i where "map_of svcs n = Some i" by (rule map_of_member)
    then show ?thesis by (simp add: down_msg_present down_line_def)
  qed
  have "\<exists>lines. collect ?f (faulty_services (tick_issues cfg snapshot states svcs)) = Inr lines
          \<and> map (\<lambda>l. Inr (Some l)) lines = map ?f (faulty_services (tick_issues cfg snapshot states svcs))"
    by (rule collect_lines) (rule one)
  then obtain lines
    where "collect ?f (faulty_services (tick_issues cfg snapshot states svcs)) = Inr lines" by blast
  then show ?thesis by (simp add: down_alert_def)
qed

lemma drop_alert_tick:
  "\<exists>drops. drop_alert snapshot states svcs (tick_issues cfg snapshot states svcs) = Inr drops"
proof -
  have one_atk: "\<exists>l. atk_msg snapshot states svcs n = Inr (Some l)"
    if "n \<in> set (attack_issue_services (tick_issues cfg snapshot states svcs))" for n
  proof -
    from that obtain i where "(n, i) \<in> set svcs" "attack_dropped cfg snapshot states (n, i)"
      by (auto simp: tick_issues_def)
    then show ?thesis by (rule atk_msg_flagged)
  qed
  have "\<exists>lines. collect (atk_msg snapshot states svcs) (attack_issue_services (tick_issues cfg snapshot states svcs)) = Inr lines
          \<and> map (\<lambda>l. Inr (Some l)) lines = map (atk_msg snapshot states svcs) (attack_issue_services (tick_issues cfg snapshot states svcs))"
    by (rule collect_lines) (rule one_atk)
  then obtain atk_msgs where a:
    "collect (atk_msg snapshot states svcs) (attack_issue_services (tick_issues cfg snapshot states svcs)) = Inr atk_msgs"
    by blast
  have one_def: "\<exists>l. def_msg snapshot states svcs n = Inr (Some l)"
    if "n \<in> set (defense_issue_services (tick_issues cfg snapshot states svcs))" for n
  proof -
    from that obtain i where "(n, i) \<in> set svcs" "defense_dropped cfg snapshot states (n, i)"
      by (auto simp: tick_issues_def)
    then show ?thesis by (rule def_msg_flagged)
  qed
  have "\<exists>lines. collect (def_msg snapshot states svcs) (defense_issue_services (tick_issues cfg snapshot states svcs)) = Inr lines
          \<and> map (\<lambda>l. Inr (Some l)) lines = map (def_msg snapshot states svcs) (defense_issue_services (tick_issues cfg snapshot states svcs))"
    by (rule collect_lines) (rule one_def)
  then obtain def_msgs where d:
    "collect (def_msg snapshot states svcs) (defense_issue_services (tick_issues cfg snapshot states svcs)) = Inr def_msgs"
    by blast
  from a d show ?thesis by (simp add: drop_alert_def)
qed

lemma send_alerts_tick:
  "\<exists>messages. send_alerts snapshot states svcs (tick_issues cfg snapshot states svcs) = Inr messages"
proof -
  obtain down where "down_alert svcs (faulty_services (tick_issues cfg snapshot states svcs)) = Inr down"
    using down_alert_tick by blast
  moreover obtain drops where "drop_alert snapshot states svcs (tick_issues cfg snapshot states svcs) = Inr drops"
    using drop_alert_tick by blast
  ultimately show ?thesis by (simp add: send_alerts_def)
qed

lemma send_alerts_no_issues: "send_alerts snapshot states svcs no_issues = Inr []"
  by (simp add: send_alerts_def down_alert_def drop_alert_def no_issues_def)

lemma new_tick_step:
  assumes "svcs \<noteq> []" "last_tick st \<noteq> Some t"
  shows "\<exists>messages.
     send_alerts (prev_deltas st) (last_service_states st) svcs
       (tick_issues cfg (prev_deltas st) (last_service_states st) svcs) = Inr messages \<and>
     monitor_services_step cfg st (Some ((t, svcs) # other)) =
       Inr (\<lparr>last_service_states = Map.empty,
             prev_deltas = store_all (new_delta (last_service_states st)) svcs (prev_deltas st),
             last_tick = Some t\<rparr>, messages)"
proof -
  obtain messages where "send_alerts (prev_deltas st) (last_service_states st) svcs
       (tick_issues cfg (prev_deltas st) (last_service_states st) svcs) = Inr messages"
    using send_alerts_tick by blast
  with assms show ?thesis
    by (simp add: monitor_services_step_def process_services_tick)
qed

lemma repeated_poll_step:
  assumes "svcs \<noteq> []" "last_tick st = Some t"
  shows "monitor_services_step cfg st (Some ((t, svcs) # other)) =
       Inr (st\<lparr>last_service_states := store_all state_of svcs Map.empty\<rparr>, [])"
  using assms
  by (simp add: monitor_services_step_def send_alerts_no_issues repeated_poll_states_eq)

lemma monitor_services_step_total:
  "\<exists>st' messages. monitor_services_step cfg st fetched = Inr (st', messages)"
proof (cases fetched)
  case None
  then show ?thesis by (simp add: monitor_services_step_def)
next
  case (Some ticks)
  show ?thesis
  proof (cases ticks)
    case Nil
    with Some show ?thesis by (simp add: monitor_services_step_def)
  next
    case (Cons first other)
    obtain t svcs where first: "first = (t, svcs)" by (cases first)
    show ?thesis
    proof (cases "svcs = []")
      case True
      with Some Cons first show ?thesis by (simp add: monitor_services_step_def)
    next
      case False
      show ?thesis
      proof (cases "last_tick st = Some t")
        case True
        with False Some Cons first show ?thesis using repeated_poll_step by blast
      next
        case new: False
        from new_tick_step [OF False new] Some Cons first show ?thesis by blast
      qed
    qed
  qed
qed

lemma monitor_services_total:
  "\<exists>st' messages. monitor_services cfg st polls = Inr (st', messages)"
proof (induction polls arbitrary: st)
  case Nil
  show ?case by simp
next
  case (Cons fetched later)
  obtain st1 m1 where "monitor_services_step cfg st fetched = Inr (st1, m1)"
    using monitor_services_step_total by blast
  moreover obtain st2 m2 where "monitor_services cfg st1 later = Inr (st2, m2)"
    using Cons.IH by blast
  ultimately show ?case by simp
qed

lemma fresh_state:
  assumes "last_service_states s = Map.empty" "prev_deltas s = Map.empty" "last_tick s = None"
  shows "s = initial_state"
  using assms by (cases s) (simp add: initial_state_def)

lemma issue_services_tick:
  "issue_services kind (tick_issues cfg snapshot states svcs) =
     map fst (filter (\<lambda>item. spec_regression cfg (prev_delta kind snapshot (fst item))
                               (current_delta kind states item)) svcs)"
  by (cases kind)
     (simp_all add: issue_services_def tick_issues_def attack_dropped_def [abs_def]
        defense_dropped_def [abs_def] prev_delta_def current_delta_def new_delta_def)

lemma distinct_fst_unique:
  "distinct (map fst svcs) \<Longrightarrow> (name, info) \<in> set svcs \<Longrightarrow> (name, info') \<in> set svcs \<Longrightarrow> info' = info"
  by (meson eq_key_imp_eq_value)

lemma flagged_iff:
  assumes "distinct (map fst svcs)" and "(name, info) \<in> set svcs"
  shows "(name \<in> set (issue_services kind (tick_issues cfg snapshot states svcs)))
         = spec_regression cfg (prev_delta kind snapshot name) (current_delta kind states (name, info))"
proof
  assume "name \<in> set (issue_services kind (tick_issues cfg snapshot states svcs))"
  then obtain info' where i: "(name, info') \<in> set svcs"
    and r: "spec_regression cfg (prev_delta kind snapshot name) (current_delta kind states (name, info'))"
    by (auto simp: issue_services_tick)
  from distinct_fst_unique [OF assms i] r
  show "spec_regression cfg (prev_delta kind snapshot name) (current_delta kind states (name, info))"
    by simp
next
  assume "spec_regression cfg (prev_delta kind snapshot name) (current_delta kind states (name, info))"
  with assms(2) show "name \<in> set (issue_services kind (tick_issues cfg snapshot states svcs))"
    by (force simp: issue_services_tick)
qed

lemma issue_msg_line:
  assumes "distinct (map fst svcs)" and "(name, info) \<in> set svcs"
    and "prev_delta kind snapshot name = Some p" and "p \<noteq> 0"
    and "current_delta kind states (name, info) = Some c"
  shows "issue_msg kind snapshot states svcs name = Inr (Some (drop_text (kind_word kind) name p c))"
proof -
  from assms(1,2) have "subscript svcs name = Inr info"
    by (simp add: subscript_present)
  with assms(3-5) show ?thesis
    by (cases kind)
       (simp_all add: issue_msg_def atk_msg_def def_msg_def prev_delta_def current_delta_def
          kind_word_def issue_line_nonzero)
qed

lemma faulty_iff:
  assumes "distinct (map fst svcs)" and "(name, info) \<in> set svcs"
  shows "(name \<in> set (faulty_services (tick_issues cfg snapshot states svcs)))
         = checker_alert states name (checker info)"
proof
  assume "name \<in> set (faulty_services (tick_issues cfg snapshot states svcs))"
  then obtain info' where i: "(name, info') \<in> set svcs"
    and r: "checker_alert states name (checker info')"
    by (auto simp: tick_issues_def checker_failed_def)
  from distinct_fst_unique [OF assms i] r
  show "checker_alert states name (checker info)" by simp
next
  assume "checker_alert states name (checker info)"
  with assms(2) show "name \<in> set (faulty_services (tick_issues cfg snapshot states svcs))"
    by (force simp: tick_issues_def checker_failed_def)
qed

lemma spec_regression_iff:
  "spec_regression cfg prev cur =
     (\<exists>p c. prev = Some p \<and> cur = Some c \<and> p \<noteq> 0 \<and> c < p
        \<and> ATK_DEF_DROP_PERCENTAGE_THRESHOLD cfg \<le> \<bar>c - p\<bar> / \<bar>p\<bar>
        \<and> ATK_DEF_MIN_SCORE_THRESHOLD cfg \<le> \<bar>p\<bar>)"
  by (simp add: spec_regression_def split: option.split)

lemma sublist_join: "x \<in> set xs \<Longrightarrow> sublist x (join sep xs)"
proof (induction sep xs rule: join.induct)
  case (1 sep)
  then show ?case by simp
next
  case (2 sep y)
  then show ?case by simp
next
  case (3 sep y z zs)
  show ?case
  proof (cases "x = y")
    case True
    then show ?thesis by simp
  next
    case False
    with 3 have "sublist x (join sep (z # zs))" by simp
    then have "sublist x ((y @ sep) @ join sep (z # zs))"
      by (rule sublist_order.order_trans) (rule sublist_append_leftI)
    then show ?thesis by simp
  qed
qed

lemma sublist_in_message:
  assumes "x \<in> set xs"
  shows "sublist x (join sep xs @ everyone)"
proof -
  from assms have "sublist x (join sep xs)" by (rule sublist_join)
  moreover have "sublist (join sep xs) (join sep xs @ everyone)" by (rule sublist_append_rightI)
  ultimately show ?thesis by (rule sublist_order.order_trans)
qed

lemma issue_lines_tick:
  "\<exists>lines.
     collect (issue_msg kind snapshot states svcs)
       (issue_services kind (tick_issues cfg snapshot states svcs)) = Inr lines
     \<and> map (\<lambda>l. Inr (Some l)) lines
       = map (issue_msg kind snapshot states svcs)
           (issue_services kind (tick_issues cfg snapshot states svcs))"
proof (rule collect_lines)
  fix n
  assume n: "n \<in> set (issue_services kind (tick_issues cfg snapshot states svcs))"
  show "\<exists>l. issue_msg kind snapshot states svcs n = Inr (Some l)"
  proof (cases kind)
    case ATTACK
    with n obtain i where "(n, i) \<in> set svcs" "attack_dropped cfg snapshot states (n, i)"
      by (auto simp: issue_services_def tick_issues_def)
    then have "\<exists>l. atk_msg snapshot states svcs n = Inr (Some l)" by (rule atk_msg_flagged)
    with ATTACK show ?thesis by (simp add: issue_msg_def)
  next
    case DEFENSE
    with n obtain i where "(n, i) \<in> set svcs" "defense_dropped cfg snapshot states (n, i)"
      by (auto simp: issue_services_def tick_issues_def)
    then have "\<exists>l. def_msg snapshot states svcs n = Inr (Some l)" by (rule def_msg_flagged)
    with DEFENSE show ?thesis by (simp add: issue_msg_def)
  qed
qed

lemma collect_down_lines:
  "(\<And>n. n \<in> set ns \<Longrightarrow> \<exists>l. down_msg svcs n = Inr l) \<Longrightarrow>
   \<exists>lines. collect (down_line svcs) ns = Inr lines
      \<and> map Inr lines = map (down_msg svcs) ns"
proof (induction ns)
  case Nil
  show ?case by simp
next
  case (Cons n ns)
  from Cons.prems obtain l where l: "down_msg svcs n = Inr l" by auto
  have "\<exists>lines. collect (down_line svcs) ns = Inr lines
      \<and> map Inr lines = map (down_msg svcs) ns"
    by (rule Cons.IH) (simp add: Cons.prems)
  then obtain lines where
    "collect (down_line svcs) ns = Inr lines"
    "map Inr lines = map (down_msg svcs) ns"
    by blast
  moreover from l have "down_line svcs n = Inr (Some l)" by (simp add: down_line_def)
  ultimately show ?case using l by simp
qed

lemma down_lines_tick:
  "\<exists>lines.
     map Inr lines = map (down_msg svcs) (faulty_services (tick_issues cfg snapshot states svcs))
     \<and> down_alert svcs (faulty_services (tick_issues cfg snapshot states svcs))
       = Inr (if faulty_services (tick_issues cfg snapshot states svcs) = [] then []
              else [join [CHR 0x0A] lines @ everyone])"
proof -
  let ?faulty = "faulty_services (tick_issues cfg snapshot states svcs)"
  have one: "\<exists>l. down_msg svcs n = Inr l" if "n \<in> set ?faulty" for n
  proof -
    from that have "n \<in> fst ` set svcs" by (auto simp: tick_issues_def)
    then obtain i where "map_of svcs n = Some i" by (rule map_of_member)
    then show ?thesis by (simp add: down_msg_present)
  qed
  have "\<exists>lines. collect (down_line svcs) ?faulty = Inr lines
      \<and> map Inr lines = map (down_msg svcs) ?faulty"
    by (rule collect_down_lines) (rule one)
  then obtain lines where
    "collect (down_line svcs) ?faulty = Inr lines"
    "map Inr lines = map (down_msg svcs) ?faulty"
    by blast
  then show ?thesis by (auto simp: down_alert_def)
qed

lemma new_tick_messages:
  assumes "svcs \<noteq> []" and "last_tick st \<noteq> Some t"
  shows "\<exists>st' down drops.
     monitor_services_step cfg st (Some ((t, svcs) # other)) = Inr (st', down @ drops)
     \<and> down_alert svcs
         (faulty_services (tick_issues cfg (prev_deltas st) (last_service_states st) svcs)) = Inr down
     \<and> drop_alert (prev_deltas st) (last_service_states st) svcs
         (tick_issues cfg (prev_deltas st) (last_service_states st) svcs) = Inr drops"
proof -
  let ?found = "tick_issues cfg (prev_deltas st) (last_service_states st) svcs"
  obtain down where d: "down_alert svcs (faulty_services ?found) = Inr down"
    using down_alert_tick by blast
  obtain drops where r: "drop_alert (prev_deltas st) (last_service_states st) svcs ?found = Inr drops"
    using drop_alert_tick by blast
  from d r have "send_alerts (prev_deltas st) (last_service_states st) svcs ?found = Inr (down @ drops)"
    by (simp add: send_alerts_def)
  with assms d r show ?thesis
    by (simp add: monitor_services_step_def process_services_tick)
qed

lemma flagged_lines_sent:
  assumes "svcs \<noteq> []" and "last_tick st \<noteq> Some t"
  shows "\<exists>lines st' messages.
     collect (issue_msg kind (prev_deltas st) (last_service_states st) svcs)
       (issue_services kind (tick_issues cfg (prev_deltas st) (last_service_states st) svcs))
       = Inr lines
     \<and> map (\<lambda>l. Inr (Some l)) lines
       = map (issue_msg kind (prev_deltas st) (last_service_states st) svcs)
           (issue_services kind (tick_issues cfg (prev_deltas st) (last_service_states st) svcs))
     \<and> monitor_services_step cfg st (Some ((t, svcs) # other)) = Inr (st', messages)
     \<and> (\<forall>l \<in> set lines. \<exists>m \<in> set messages. sublist l m)"
proof -
  let ?snap = "prev_deltas st" and ?states = "last_service_states st"
  let ?found = "tick_issues cfg ?snap ?states svcs"
  obtain st' down drops where
    step: "monitor_services_step cfg st (Some ((t, svcs) # other)) = Inr (st', down @ drops)"
    and drops: "drop_alert ?snap ?states svcs ?found = Inr drops"
    using new_tick_messages [OF assms] by blast
  obtain a where a: "collect (issue_msg ATTACK ?snap ?states svcs) (issue_services ATTACK ?found) = Inr a"
    "map (\<lambda>l. Inr (Some l)) a = map (issue_msg ATTACK ?snap ?states svcs) (issue_services ATTACK ?found)"
    using issue_lines_tick by blast
  obtain d where d: "collect (issue_msg DEFENSE ?snap ?states svcs) (issue_services DEFENSE ?found) = Inr d"
    "map (\<lambda>l. Inr (Some l)) d = map (issue_msg DEFENSE ?snap ?states svcs) (issue_services DEFENSE ?found)"
    using issue_lines_tick by blast
  have a': "collect (atk_msg ?snap ?states svcs) (attack_issue_services ?found) = Inr a"
    using a(1) by (simp add: issue_msg_def [abs_def] issue_services_def)
  have d': "collect (def_msg ?snap ?states svcs) (defense_issue_services ?found) = Inr d"
    using d(1) by (simp add: issue_msg_def [abs_def] issue_services_def)
  from a' d' drops have drops_eq:
    "drops = (if a \<noteq> [] \<or> d \<noteq> [] then [join [CHR 0x0A] (a @ d) @ everyone] else [])"
    by (auto simp: drop_alert_def split: if_splits)
  have sent: "\<exists>m \<in> set (down @ drops). sublist l m" if "l \<in> set (a @ d)" for l
  proof -
    from that have "a \<noteq> [] \<or> d \<noteq> []" by auto
    with drops_eq have "join [CHR 0x0A] (a @ d) @ everyone \<in> set (down @ drops)" by simp
    moreover from that have "sublist l (join [CHR 0x0A] (a @ d) @ everyone)"
      by (rule sublist_in_message)
    ultimately show ?thesis by blast
  qed
  show ?thesis
  proof (cases kind)
    case ATTACK
    with a step sent show ?thesis by (intro exI [of _ a] exI [of _ st'] exI [of _ "down @ drops"]) auto
  next
    case DEFENSE
    with d step sent show ?thesis by (intro exI [of _ d] exI [of _ st'] exI [of _ "down @ drops"]) auto
  qed
qed

lemma string_of_nat_digit: "n < 10 \<Longrightarrow> string_of_nat n = [digit_char n]"
  by (simp add: string_of_nat.simps)

lemma string_of_nat_two:
  "10 \<le> n \<Longrightarrow> n < 100 \<Longrightarrow> string_of_nat n = [digit_char (n div 10), digit_char (n mod 10)]"
  by (subst string_of_nat.simps) (simp add: string_of_nat_digit)

lemma format_plus_20: "format_2f True 20 = ''+20.00''"
  by (simp add: format_2f_def round_half_even_def string_of_nat_two digit_char_def)

lemma format_plus_5: "format_2f True 5 = ''+5.00''"
  by (simp add: format_2f_def round_half_even_def string_of_nat_digit digit_char_def)

lemma format_75: "format_2f False 75 = ''75.00''"
  by (simp add: format_2f_def round_half_even_def string_of_nat_two digit_char_def)

lemma drop_text_20_5:
  "drop_text kw name 20 5 =
     ([CHR 0x60] @ name @ [CHR 0x60] @ '' has '' @ [CHR 0x60] @ kw @ [CHR 0x60] @ '' issue''
      @ [CHR 0x0A] @ ''-# '') @ ''75.00% change (+20.00->+5.00)''"
  by (simp add: drop_text_def format_plus_20 format_plus_5 format_75)

lemma drop_text_20_5_values: "sublist ''+20.00->+5.00'' (drop_text kw name 20 5)"
proof -
  have "''75.00% change (+20.00->+5.00)'' = ''75.00% change ('' @ ''+20.00->+5.00'' @ '')''"
    by simp
  then have "sublist ''+20.00->+5.00'' ''75.00% change (+20.00->+5.00)''"
    by (metis sublist_appendI)
  then show ?thesis
    unfolding drop_text_20_5 by (rule sublist_order.order_trans) (rule sublist_append_leftI)
qed

lemma drop_text_20_5_percent: "sublist ''75.00%'' (drop_text kw name 20 5)"
proof -
  have "''75.00% change (+20.00->+5.00)'' = ''75.00%'' @ '' change (+20.00->+5.00)''"
    by simp
  then have "sublist ''75.00%'' ''75.00% change (+20.00->+5.00)''"
    by (metis sublist_append_rightI)
  then show ?thesis
    unfolding drop_text_20_5 by (rule sublist_order.order_trans) (rule sublist_append_leftI)
qed

lemma same_tick_step:
  assumes "last_tick st = Some t" and "same_tick t fetched"
  shows "\<exists>st'. monitor_services_step cfg st fetched = Inr (st', [])
           \<and> prev_deltas st' = prev_deltas st \<and> last_tick st' = Some t"
proof (cases fetched)
  case None
  with assms(1) show ?thesis by (simp add: monitor_services_step_def)
next
  case (Some ticks)
  show ?thesis
  proof (cases ticks)
    case Nil
    with Some assms(1) show ?thesis by (simp add: monitor_services_step_def)
  next
    case (Cons first other)
    obtain t' svcs where first: "first = (t', svcs)" by (cases first)
    show ?thesis
    proof (cases "svcs = []")
      case True
      with Some Cons first assms(1) show ?thesis by (simp add: monitor_services_step_def)
    next
      case False
      with assms(2) Some Cons first have "t' = t" by (simp add: same_tick_def)
      with repeated_poll_step [OF False assms(1), of cfg other] Some Cons first assms(1)
      show ?thesis by simp
    qed
  qed
qed

lemma same_tick_run:
  assumes "last_tick st = Some t" and "list_all (same_tick t) polls"
  shows "\<exists>st'. monitor_services cfg st polls = Inr (st', [])
           \<and> prev_deltas st' = prev_deltas st \<and> last_tick st' = Some t"
  using assms
proof (induction polls arbitrary: st)
  case Nil
  then show ?case by simp
next
  case (Cons fetched later)
  from Cons.prems have "same_tick t fetched" by simp
  with Cons.prems(1) obtain st1 where 1: "monitor_services_step cfg st fetched = Inr (st1, [])"
    "prev_deltas st1 = prev_deltas st" "last_tick st1 = Some t"
    using same_tick_step by blast
  from Cons.prems have "list_all (same_tick t) later" by simp
  with 1(3) obtain st2 where 2: "monitor_services cfg st1 later = Inr (st2, [])"
    "prev_deltas st2 = prev_deltas st1" "last_tick st2 = Some t"
    using Cons.IH by blast
  from 1 2 show ?case by simp
qed


lemma previous_delta_kept_when_absent:
  assumes "last_tick st0 \<noteq> Some tA" and "svcsA \<noteq> []" and "name \<notin> fst ` set svcsA"
    and "monitor_services_step cfg st0 (Some ((tA, svcsA) # otherA)) = Inr (st1, messagesA)"
    and "list_all (same_tick tA) polls"
    and "monitor_services cfg st1 polls = Inr (st2, messagesR)"
  shows "prev_delta kind (prev_deltas st2) name = prev_delta kind (prev_deltas st0) name"
proof -
  from new_tick_step [OF assms(2) assms(1), of cfg otherA] assms(4)
  have st1: "prev_deltas st1 = store_all (new_delta (last_service_states st0)) svcsA (prev_deltas st0)"
    "last_tick st1 = Some tA"
    by auto
  from same_tick_run [OF st1(2) assms(5), of cfg] assms(6)
  have "prev_deltas st2 = prev_deltas st1" by auto
  with st1(1) assms(3) have "prev_deltas st2 name = prev_deltas st0 name"
    by (simp add: store_all_absent)
  then show ?thesis
    by (cases kind) (simp_all add: prev_delta_def prev_attack_delta_def prev_defense_delta_def)
qed

lemmas eval_defs = monitor_services_step_def process_service_def delta_drop_alert_def py_div_def
  score_delta_def prev_attack_score_def prev_defense_score_def prev_attack_delta_def
  prev_defense_delta_def current_attack_score_def current_defense_score_def checker_alert_def
  send_alerts_def down_alert_def drop_alert_def atk_msg_def def_msg_def issue_line_def
  subscript_def down_msg_def down_line_def everyone_def no_issues_def initial_state_def default_config_def Let_def

section \<open>The claims\<close>

text \<open>
  C1. The claim: after a tick with a new tick id, the stored service-state mapping holds the
  freshly computed state of every service of the payload, and the last-processed tick id is
  the new one. The code does the second and not the first: the branch of a new tick never
  writes to \<^verbatim>\<open>current_service_states\<close>, so line 225 stores the empty mapping. Evaluated
  here on the first poll of a run, with one service \<^verbatim>\<open>web\<close>: the stored mapping is empty
  afterwards.
\<close>

theorem new_tick_stores_no_states:
  "monitor_services_step default_config initial_state
     (Some [(''1'', [(''web'', \<lparr>checker = Some ''SUCCESS'',
                               components = Some \<lparr>attack = Some 1, defense = Some 2\<rparr>\<rparr>)])])
   = Inr (\<lparr>last_service_states = Map.empty,
           prev_deltas = [''web'' \<mapsto> \<lparr>attack_delta = None, defense_delta = None\<rparr>],
           last_tick = Some ''1''\<rparr>, [])"
  by (simp add: eval_defs)

text \<open>
  C2. The claim: a poll that returns the tick id processed last leaves the stored
  service states and the stored deltas as they were and sends no alert. The deltas and
  the alerts are as claimed; the stored service states are not. The branch of a repeated
  poll builds \<^verbatim>\<open>current_service_states\<close> from the payload (lines 169 to 173) and
  line 225 stores it. Below, the first poll of a run leaves the mapping empty, and the
  same document polled again fills in an entry for \<^verbatim>\<open>web\<close>.
\<close>

theorem repeated_poll_changes_states_counterexample:
  "monitor_services default_config initial_state
     [Some [(''1'', [(''web'', \<lparr>checker = Some ''SUCCESS'',
                                components = Some \<lparr>attack = Some 1, defense = Some 2\<rparr>\<rparr>)])]]
   = Inr (\<lparr>last_service_states = Map.empty,
           prev_deltas = [''web'' \<mapsto> \<lparr>attack_delta = None, defense_delta = None\<rparr>],
           last_tick = Some ''1''\<rparr>, [])
   \<and> monitor_services_step default_config
       \<lparr>last_service_states = Map.empty,
        prev_deltas = [''web'' \<mapsto> \<lparr>attack_delta = None, defense_delta = None\<rparr>],
        last_tick = Some ''1''\<rparr>
       (Some [(''1'', [(''web'', \<lparr>checker = Some ''SUCCESS'',
                                 components = Some \<lparr>attack = Some 1, defense = Some 2\<rparr>\<rparr>)])])
   = Inr (\<lparr>last_service_states =
             [''web'' \<mapsto> \<lparr>st_checker = Some ''SUCCESS'', st_attack = 1, st_defense = 2\<rparr>],
           prev_deltas = [''web'' \<mapsto> \<lparr>attack_delta = None, defense_delta = None\<rparr>],
           last_tick = Some ''1''\<rparr>, [])"
  by (simp add: eval_defs)

text \<open>
  C2, as the code has it: a poll that returns the tick id processed last completes, sends
  no message, and leaves the stored deltas and the last tick id as they were; the stored
  service states become those read from the payload of that poll.
\<close>

theorem repeated_poll_keeps_deltas:
  assumes "last_tick st = Some t" and "svcs \<noteq> []"
  shows "\<exists>st'. monitor_services_step cfg st (Some ((t, svcs) # other)) = Inr (st', [])
           \<and> prev_deltas st' = prev_deltas st
           \<and> last_tick st' = last_tick st
           \<and> last_service_states st' = repeated_poll_states svcs Map.empty"
  using repeated_poll_step [OF assms(2) assms(1)] by (simp add: repeated_poll_states_eq)

theorem repeated_poll_keeps_deltas_witness:
  "last_tick \<lparr>last_service_states = Map.empty,
              prev_deltas = [''web'' \<mapsto> \<lparr>attack_delta = Some 3, defense_delta = None\<rparr>],
              last_tick = Some ''1''\<rparr> = Some ''1''
   \<and> [(''web'', \<lparr>checker = Some ''OFFLINE'', components = None\<rparr>)] \<noteq> []
   \<and> (\<exists>st'. monitor_services_step default_config
          \<lparr>last_service_states = Map.empty,
           prev_deltas = [''web'' \<mapsto> \<lparr>attack_delta = Some 3, defense_delta = None\<rparr>],
           last_tick = Some ''1''\<rparr>
          (Some [(''1'', [(''web'', \<lparr>checker = Some ''OFFLINE'', components = None\<rparr>)])])
        = Inr (st', [])
        \<and> prev_deltas st' = [''web'' \<mapsto> \<lparr>attack_delta = Some 3, defense_delta = None\<rparr>]
        \<and> last_tick st' = Some ''1''
        \<and> last_service_states st'
            = repeated_poll_states [(''web'', \<lparr>checker = Some ''OFFLINE'', components = None\<rparr>)] Map.empty)"
  using repeated_poll_keeps_deltas
    [of "\<lparr>last_service_states = Map.empty,
          prev_deltas = [''web'' \<mapsto> \<lparr>attack_delta = Some 3, defense_delta = None\<rparr>],
          last_tick = Some ''1''\<rparr>" "''1''"
        "[(''web'', \<lparr>checker = Some ''OFFLINE'', components = None\<rparr>)]" default_config "[]"]
  by simp

text \<open>
  C3, that a score-regression alert is produced exactly when the drop percentage reaches the
  percentage threshold (and the other conditions hold), is not stated as a theorem. The
  code computes the deltas and the drop percentage in Python's numbers, and the test
  \<^verbatim>\<open>drop_percentage >= ATK_DEF_DROP_PERCENTAGE_THRESHOLD\<close> is decided by the rounded
  quotient: with previous delta \<open>2 ^ 57\<close> and current delta \<open>2 ^ 56 + 1\<close> the exact
  drop is below one half and the rounded one is one half. Over exact rationals the
  equivalence holds (\<open>flagged_iff\<close> with \<open>spec_regression_iff\<close>), which says nothing
  about the code at such inputs.
\<close>

text \<open>
  C4. If the previous delta of a service is exactly zero, then on a tick with a new tick id
  the service is not put on the issue list, whatever its current delta: the test of lines
  131 (140) answers no before it divides, whatever the current delta, and the pass
  completes, so no division by zero is ever raised.
\<close>

theorem zero_previous_delta_no_alert:
  assumes "last_tick st \<noteq> Some t" and "svcs \<noteq> []"
    and "prev_delta kind (prev_deltas st) name = Some 0"
  shows "\<exists>live found st' messages.
     process_services cfg (prev_deltas st) (last_service_states st) svcs (prev_deltas st, no_issues)
       = Inr (live, found)
     \<and> name \<notin> set (issue_services kind found)
     \<and> monitor_services_step cfg st (Some ((t, svcs) # other)) = Inr (st', messages)
     \<and> (\<forall>delta. delta_drop_alert cfg delta (prev_delta kind (prev_deltas st) name) = Inr False)"
proof -
  let ?found = "tick_issues cfg (prev_deltas st) (last_service_states st) svcs"
  have "process_services cfg (prev_deltas st) (last_service_states st) svcs (prev_deltas st, no_issues)
        = Inr (store_all (new_delta (last_service_states st)) svcs (prev_deltas st), ?found)"
    by (rule process_services_tick)
  moreover from assms(3) have "name \<notin> set (issue_services kind ?found)"
    by (auto simp: issue_services_tick spec_regression_iff)
  moreover obtain st' messages where
    "monitor_services_step cfg st (Some ((t, svcs) # other)) = Inr (st', messages)"
    using monitor_services_step_total by blast
  moreover from assms(3)
  have "\<forall>delta. delta_drop_alert cfg delta (prev_delta kind (prev_deltas st) name) = Inr False"
    by (simp add: delta_drop_alert_eq spec_regression_iff)
  ultimately show ?thesis by blast
qed

theorem zero_previous_delta_no_alert_witness:
  "last_tick \<lparr>last_service_states = [''web'' \<mapsto> seen ''SUCCESS'' 20],
              prev_deltas = [''web'' \<mapsto> deltas (Some 0) (Some 0)],
              last_tick = Some ''2''\<rparr> \<noteq> Some ''3''
   \<and> [service ''web'' ''SUCCESS'' 5] \<noteq> []
   \<and> prev_delta ATTACK [''web'' \<mapsto> deltas (Some 0) (Some 0)] ''web'' = Some 0
   \<and> (\<exists>live found st' messages.
        process_services default_config [''web'' \<mapsto> deltas (Some 0) (Some 0)]
          [''web'' \<mapsto> seen ''SUCCESS'' 20] [service ''web'' ''SUCCESS'' 5]
          ([''web'' \<mapsto> deltas (Some 0) (Some 0)], no_issues) = Inr (live, found)
        \<and> ''web'' \<notin> set (issue_services ATTACK found)
        \<and> monitor_services_step default_config
            \<lparr>last_service_states = [''web'' \<mapsto> seen ''SUCCESS'' 20],
             prev_deltas = [''web'' \<mapsto> deltas (Some 0) (Some 0)],
             last_tick = Some ''2''\<rparr>
            (poll ''3'' [service ''web'' ''SUCCESS'' 5]) = Inr (st', messages))"
proof -
  let ?st = "\<lparr>last_service_states = [''web'' \<mapsto> seen ''SUCCESS'' 20],
              prev_deltas = [''web'' \<mapsto> deltas (Some 0) (Some 0)],
              last_tick = Some ''2''\<rparr>"
  have h1: "last_tick ?st \<noteq> Some ''3''" by simp
  have h2: "[service ''web'' ''SUCCESS'' 5] \<noteq> []" by simp
  have h3: "prev_delta ATTACK (prev_deltas ?st) ''web'' = Some 0"
    by (simp add: prev_delta_def prev_attack_delta_def)
  from zero_previous_delta_no_alert [where cfg = default_config and other = "[]", OF h1 h2 h3] h1 h3
  show ?thesis by auto
qed




text \<open>
  C6. On a tick with a new tick id, a service of the payload that has a stored state is put
  on the faulty list exactly when the stored checker status is SUCCESS or RECOVERING and
  the current one is OFFLINE or MUMBLE; so OFFLINE after OFFLINE flags nothing. Its line
  says \<^verbatim>\<open>offline\<close> when the current status is OFFLINE and \<^verbatim>\<open>mumble\<close> otherwise (line 186 reads
  an absent status as OFFLINE; a service on the faulty list always has one). The first
  message sent is made of the lines of the faulty services, in order, and the broadcast
  marker.
\<close>

theorem checker_regression_iff:
  assumes "last_tick st \<noteq> Some t" and "distinct (map fst svcs)" and "(name, info) \<in> set svcs"
    and "last_service_states st name = Some prev_state"
  shows "\<exists>live found lines st' drops.
     process_services cfg (prev_deltas st) (last_service_states st) svcs (prev_deltas st, no_issues)
       = Inr (live, found)
     \<and> (name \<in> set (faulty_services found))
       = ((st_checker prev_state = Some ''SUCCESS'' \<or> st_checker prev_state = Some ''RECOVERING'')
          \<and> (checker info = Some ''OFFLINE'' \<or> checker info = Some ''MUMBLE''))
     \<and> down_msg svcs name
       = Inr ([CHR 0x60] @ name @ [CHR 0x60] @ '' is '' @ [CHR 0x60]
              @ (if checker info = Some ''OFFLINE'' \<or> checker info = None
                 then ''offline'' else ''mumble'') @ [CHR 0x60])
     \<and> map Inr lines = map (down_msg svcs) (faulty_services found)
     \<and> monitor_services_step cfg st (Some ((t, svcs) # other))
       = Inr (st', (if faulty_services found = [] then []
                    else [join [CHR 0x0A] lines @ [CHR 0x0A] @ ''@everyone'']) @ drops)"
proof -
  let ?found = "tick_issues cfg (prev_deltas st) (last_service_states st) svcs"
  from assms(3) have ne: "svcs \<noteq> []" by auto
  have "process_services cfg (prev_deltas st) (last_service_states st) svcs (prev_deltas st, no_issues)
        = Inr (store_all (new_delta (last_service_states st)) svcs (prev_deltas st), ?found)"
    by (rule process_services_tick)
  moreover have "(name \<in> set (faulty_services ?found))
       = ((st_checker prev_state = Some ''SUCCESS'' \<or> st_checker prev_state = Some ''RECOVERING'')
          \<and> (checker info = Some ''OFFLINE'' \<or> checker info = Some ''MUMBLE''))"
    unfolding faulty_iff [OF assms(2,3)] using assms(4) by (simp add: checker_alert_def)
  moreover from assms(2,3) have "down_msg svcs name
       = Inr ([CHR 0x60] @ name @ [CHR 0x60] @ '' is '' @ [CHR 0x60]
              @ (if checker info = Some ''OFFLINE'' \<or> checker info = None
                 then ''offline'' else ''mumble'') @ [CHR 0x60])"
    by (auto simp: down_msg_present down_text_def)
  moreover obtain lines where
    lines: "map Inr lines = map (down_msg svcs) (faulty_services ?found)"
    and down: "down_alert svcs (faulty_services ?found)
       = Inr (if faulty_services ?found = [] then [] else [join [CHR 0x0A] lines @ everyone])"
    using down_lines_tick by blast
  moreover obtain st' down' drops where
    "monitor_services_step cfg st (Some ((t, svcs) # other)) = Inr (st', down' @ drops)"
    "down_alert svcs (faulty_services ?found) = Inr down'"
    using new_tick_messages [OF ne assms(1)] by blast
  ultimately show ?thesis by (auto simp: everyone_def)
qed

theorem checker_regression_iff_witness:
  "last_tick \<lparr>last_service_states = [''web'' \<mapsto> seen ''SUCCESS'' 20],
              prev_deltas = [''web'' \<mapsto> deltas (Some 0) (Some 0)],
              last_tick = Some ''2''\<rparr> \<noteq> Some ''3''
   \<and> distinct (map fst [service ''web'' ''OFFLINE'' 20])
   \<and> service ''web'' ''OFFLINE'' 20 \<in> set [service ''web'' ''OFFLINE'' 20]
   \<and> [''web'' \<mapsto> seen ''SUCCESS'' 20] ''web'' = Some (seen ''SUCCESS'' 20)
   \<and> (\<exists>live found st' messages.
        process_services default_config [''web'' \<mapsto> deltas (Some 0) (Some 0)]
          [''web'' \<mapsto> seen ''SUCCESS'' 20] [service ''web'' ''OFFLINE'' 20]
          ([''web'' \<mapsto> deltas (Some 0) (Some 0)], no_issues) = Inr (live, found)
        \<and> ''web'' \<in> set (faulty_services found)
        \<and> down_msg [service ''web'' ''OFFLINE'' 20] ''web''
          = Inr ([CHR 0x60] @ ''web'' @ [CHR 0x60] @ '' is '' @ [CHR 0x60] @ ''offline'' @ [CHR 0x60])
        \<and> monitor_services_step default_config
            \<lparr>last_service_states = [''web'' \<mapsto> seen ''SUCCESS'' 20],
             prev_deltas = [''web'' \<mapsto> deltas (Some 0) (Some 0)],
             last_tick = Some ''2''\<rparr>
            (poll ''3'' [service ''web'' ''OFFLINE'' 20]) = Inr (st', messages))"
proof -
  let ?st = "\<lparr>last_service_states = [''web'' \<mapsto> seen ''SUCCESS'' 20],
              prev_deltas = [''web'' \<mapsto> deltas (Some 0) (Some 0)],
              last_tick = Some ''2''\<rparr>"
  have h1: "last_tick ?st \<noteq> Some ''3''" by simp
  have h2: "distinct (map fst [service ''web'' ''OFFLINE'' 20])" by simp
  have h3: "service ''web'' ''OFFLINE'' 20 \<in> set [service ''web'' ''OFFLINE'' 20]" by simp
  have h4: "last_service_states ?st ''web'' = Some (seen ''SUCCESS'' 20)" by simp
  from checker_regression_iff [where cfg = default_config and other = "[]", OF h1 h2 h3 h4]
  obtain live found st' messages where
    "process_services default_config (prev_deltas ?st) (last_service_states ?st)
       [service ''web'' ''OFFLINE'' 20] (prev_deltas ?st, no_issues) = Inr (live, found)"
    "''web'' \<in> set (faulty_services found)"
    "down_msg [service ''web'' ''OFFLINE'' 20] ''web''
       = Inr ([CHR 0x60] @ ''web'' @ [CHR 0x60] @ '' is '' @ [CHR 0x60] @ ''offline'' @ [CHR 0x60])"
    "monitor_services_step default_config ?st (poll ''3'' [service ''web'' ''OFFLINE'' 20])
       = Inr (st', messages)"
    by auto
  with h1 show ?thesis by auto
qed

text \<open>
  C7. With the thresholds 0.5 and 10.0, a service of a new tick whose previous delta is 20
  and whose current delta is 5 is put on the issue list, and among the messages the pass
  sends there is one that contains both \<^verbatim>\<open>+20.00->+5.00\<close> and \<^verbatim>\<open>75.00%\<close>.
\<close>

theorem regression_message_text:
  assumes "last_tick st \<noteq> Some t" and "distinct (map fst svcs)" and "(name, info) \<in> set svcs"
    and "prev_delta kind (prev_deltas st) name = Some 20"
    and "current_delta kind (last_service_states st) (name, info) = Some 5"
  shows "\<exists>live found st' messages m.
     process_services default_config (prev_deltas st) (last_service_states st) svcs
       (prev_deltas st, no_issues) = Inr (live, found)
     \<and> name \<in> set (issue_services kind found)
     \<and> monitor_services_step default_config st (Some ((t, svcs) # other)) = Inr (st', messages)
     \<and> m \<in> set messages
     \<and> sublist ''+20.00->+5.00'' m \<and> sublist ''75.00%'' m"
proof -
  let ?snap = "prev_deltas st" and ?states = "last_service_states st"
  let ?found = "tick_issues default_config ?snap ?states svcs"
  let ?line = "drop_text (kind_word kind) name 20 5"
  from assms(3) have ne: "svcs \<noteq> []" by auto
  have run: "process_services default_config ?snap ?states svcs (?snap, no_issues)
        = Inr (store_all (new_delta ?states) svcs ?snap, ?found)"
    by (rule process_services_tick)
  have flagged: "name \<in> set (issue_services kind ?found)"
    unfolding flagged_iff [OF assms(2,3)] using assms(4,5)
    by (simp add: spec_regression_iff default_config_def)
  have line: "issue_msg kind ?snap ?states svcs name = Inr (Some ?line)"
    using assms(2,3,4) _ assms(5) by (rule issue_msg_line) simp
  obtain lines st' messages where
    c: "collect (issue_msg kind ?snap ?states svcs) (issue_services kind ?found) = Inr lines"
    and l: "map (\<lambda>l. Inr (Some l)) lines
            = map (issue_msg kind ?snap ?states svcs) (issue_services kind ?found)"
    and step: "monitor_services_step default_config st (Some ((t, svcs) # other)) = Inr (st', messages)"
    and sent: "\<forall>l \<in> set lines. \<exists>m \<in> set messages. sublist l m"
    using flagged_lines_sent [OF ne assms(1)] by blast
  from c l flagged line have "?line \<in> set lines" by (rule collect_member)
  with sent obtain m where m: "m \<in> set messages" "sublist ?line m" by blast
  have "sublist ''+20.00->+5.00'' m"
    using drop_text_20_5_values m(2) by (rule sublist_order.order_trans)
  moreover have "sublist ''75.00%'' m"
    using drop_text_20_5_percent m(2) by (rule sublist_order.order_trans)
  ultimately show ?thesis using run flagged step m(1) by blast
qed

theorem regression_message_text_witness:
  "last_tick \<lparr>last_service_states = [''web'' \<mapsto> seen ''SUCCESS'' 20],
              prev_deltas = [''web'' \<mapsto> deltas (Some 20) (Some 0)],
              last_tick = Some ''2''\<rparr> \<noteq> Some ''3''
   \<and> distinct (map fst [service ''web'' ''SUCCESS'' 25])
   \<and> service ''web'' ''SUCCESS'' 25 \<in> set [service ''web'' ''SUCCESS'' 25]
   \<and> prev_delta ATTACK [''web'' \<mapsto> deltas (Some 20) (Some 0)] ''web'' = Some 20
   \<and> current_delta ATTACK [''web'' \<mapsto> seen ''SUCCESS'' 20] (service ''web'' ''SUCCESS'' 25) = Some 5
   \<and> (\<exists>st' messages m.
        monitor_services_step default_config
          \<lparr>last_service_states = [''web'' \<mapsto> seen ''SUCCESS'' 20],
           prev_deltas = [''web'' \<mapsto> deltas (Some 20) (Some 0)],
           last_tick = Some ''2''\<rparr>
          (poll ''3'' [service ''web'' ''SUCCESS'' 25]) = Inr (st', messages)
        \<and> m \<in> set messages \<and> sublist ''+20.00->+5.00'' m \<and> sublist ''75.00%'' m)"
proof -
  let ?st = "\<lparr>last_service_states = [''web'' \<mapsto> seen ''SUCCESS'' 20],
              prev_deltas = [''web'' \<mapsto> deltas (Some 20) (Some 0)],
              last_tick = Some ''2''\<rparr>"
  have h1: "last_tick ?st \<noteq> Some ''3''" by simp
  have h2: "distinct (map fst [service ''web'' ''SUCCESS'' 25])" by simp
  have h3: "service ''web'' ''SUCCESS'' 25 \<in> set [service ''web'' ''SUCCESS'' 25]" by simp
  have h4: "prev_delta ATTACK (prev_deltas ?st) ''web'' = Some 20"
    by (simp add: prev_delta_def prev_attack_delta_def)
  have h5: "current_delta ATTACK (last_service_states ?st) (service ''web'' ''SUCCESS'' 25) = Some 5"
    by (simp add: current_delta_def score_delta_def current_attack_score_def prev_attack_score_def)
  from regression_message_text [OF h1 h2 h3 h4 h5, of "[]"] h1 h4 h5
  show ?thesis by auto
qed

text \<open>
  C8. The claim: the state of a service that was in one processed tick and is missing from
  the next stays in the stored mapping. Line 225 replaces the whole mapping by
  \<^verbatim>\<open>current_service_states\<close>, which has entries for names of the current payload only.
  Below, after two polls of tick 1 the mapping has entries for \<^verbatim>\<open>web\<close> and \<^verbatim>\<open>db\<close>;
  tick 2 arrives without \<^verbatim>\<open>db\<close>, and the entry of \<^verbatim>\<open>db\<close> is gone afterwards
  (its delta record is still there).
\<close>

theorem absent_service_state_pruned_counterexample:
  "monitor_services default_config initial_state
     [Some [(''1'', [(''web'', \<lparr>checker = Some ''SUCCESS'', components = None\<rparr>),
                     (''db'', \<lparr>checker = Some ''SUCCESS'', components = None\<rparr>)])],
      Some [(''1'', [(''web'', \<lparr>checker = Some ''SUCCESS'', components = None\<rparr>),
                     (''db'', \<lparr>checker = Some ''SUCCESS'', components = None\<rparr>)])]]
   = Inr (\<lparr>last_service_states =
             [''web'' \<mapsto> \<lparr>st_checker = Some ''SUCCESS'', st_attack = 0, st_defense = 0\<rparr>,
              ''db'' \<mapsto> \<lparr>st_checker = Some ''SUCCESS'', st_attack = 0, st_defense = 0\<rparr>],
           prev_deltas = [''web'' \<mapsto> \<lparr>attack_delta = None, defense_delta = None\<rparr>,
                          ''db'' \<mapsto> \<lparr>attack_delta = None, defense_delta = None\<rparr>],
           last_tick = Some ''1''\<rparr>, [])
   \<and> monitor_services_step default_config
       \<lparr>last_service_states =
          [''web'' \<mapsto> \<lparr>st_checker = Some ''SUCCESS'', st_attack = 0, st_defense = 0\<rparr>,
           ''db'' \<mapsto> \<lparr>st_checker = Some ''SUCCESS'', st_attack = 0, st_defense = 0\<rparr>],
        prev_deltas = [''web'' \<mapsto> \<lparr>attack_delta = None, defense_delta = None\<rparr>,
                       ''db'' \<mapsto> \<lparr>attack_delta = None, defense_delta = None\<rparr>],
        last_tick = Some ''1''\<rparr>
       (Some [(''2'', [(''web'', \<lparr>checker = Some ''SUCCESS'', components = None\<rparr>)])])
   = Inr (\<lparr>last_service_states = Map.empty,
           prev_deltas = [''web'' \<mapsto> \<lparr>attack_delta = Some 0, defense_delta = Some 0\<rparr>,
                          ''db'' \<mapsto> \<lparr>attack_delta = None, defense_delta = None\<rparr>],
           last_tick = Some ''2''\<rparr>, [])"
  by (simp add: eval_defs fun_upd_twist)

text \<open>
  C8, as the code has it: after any poll that is not skipped, the stored mapping has no
  entry for a service name that is missing from the payload of that poll, whatever was
  stored for it before.
\<close>

theorem absent_service_state_dropped:
  assumes "svcs \<noteq> []" and "name \<notin> fst ` set svcs"
  shows "\<exists>st' messages.
           monitor_services_step cfg st (Some ((t, svcs) # other)) = Inr (st', messages)
           \<and> last_service_states st' name = None"
proof (cases "last_tick st = Some t")
  case True
  from repeated_poll_step [OF assms(1) True] assms(2) show ?thesis
    by (simp add: store_all_absent)
next
  case False
  from new_tick_step [OF assms(1) False] obtain messages where
    "monitor_services_step cfg st (Some ((t, svcs) # other)) =
       Inr (\<lparr>last_service_states = Map.empty,
             prev_deltas = store_all (new_delta (last_service_states st)) svcs (prev_deltas st),
             last_tick = Some t\<rparr>, messages)"
    by blast
  then show ?thesis by simp
qed

theorem absent_service_state_dropped_witness:
  "[(''web'', \<lparr>checker = Some ''SUCCESS'', components = None\<rparr>)] \<noteq> []
   \<and> ''db'' \<notin> fst ` set [(''web'', \<lparr>checker = Some ''SUCCESS'', components = None\<rparr>)]
   \<and> last_service_states
        \<lparr>last_service_states =
           [''db'' \<mapsto> \<lparr>st_checker = Some ''SUCCESS'', st_attack = 0, st_defense = 0\<rparr>],
         prev_deltas = Map.empty, last_tick = Some ''1''\<rparr> ''db''
      = Some \<lparr>st_checker = Some ''SUCCESS'', st_attack = 0, st_defense = 0\<rparr>
   \<and> (\<exists>st' messages.
         monitor_services_step default_config
           \<lparr>last_service_states =
              [''db'' \<mapsto> \<lparr>st_checker = Some ''SUCCESS'', st_attack = 0, st_defense = 0\<rparr>],
            prev_deltas = Map.empty, last_tick = Some ''1''\<rparr>
           (Some [(''1'', [(''web'', \<lparr>checker = Some ''SUCCESS'', components = None\<rparr>)])])
         = Inr (st', messages)
         \<and> last_service_states st' ''db'' = None)"
  using absent_service_state_dropped
    [of "[(''web'', \<lparr>checker = Some ''SUCCESS'', components = None\<rparr>)]" "''db''" default_config
        "\<lparr>last_service_states =
           [''db'' \<mapsto> \<lparr>st_checker = Some ''SUCCESS'', st_attack = 0, st_defense = 0\<rparr>],
          prev_deltas = Map.empty, last_tick = Some ''1''\<rparr>" "''1''" "[]"]
  by simp

text \<open>
  C9. Two runs that start from a fresh state (empty service states, empty delta store, no
  last tick) and are fed the same sequence of fetch results both complete and send the
  same sequence of messages.
\<close>

theorem replay_same_alerts:
  assumes "last_service_states s1 = Map.empty" and "prev_deltas s1 = Map.empty"
    and "last_tick s1 = None"
    and "last_service_states s2 = Map.empty" and "prev_deltas s2 = Map.empty"
    and "last_tick s2 = None"
  shows "\<exists>st1 st2 messages.
           monitor_services cfg s1 polls = Inr (st1, messages)
           \<and> monitor_services cfg s2 polls = Inr (st2, messages)"
proof -
  have "s1 = initial_state" using assms(1-3) by (rule fresh_state)
  moreover have "s2 = initial_state" using assms(4-6) by (rule fresh_state)
  moreover obtain st' messages where "monitor_services cfg initial_state polls = Inr (st', messages)"
    using monitor_services_total by blast
  ultimately show ?thesis by blast
qed

theorem replay_same_alerts_witness:
  "last_service_states initial_state = Map.empty \<and> prev_deltas initial_state = Map.empty
   \<and> last_tick initial_state = None
   \<and> (\<exists>st1 st2 messages.
        monitor_services default_config initial_state
          [Some [(''1'', [(''web'', \<lparr>checker = Some ''SUCCESS'', components = None\<rparr>)])], None]
        = Inr (st1, messages)
        \<and> monitor_services default_config initial_state
          [Some [(''1'', [(''web'', \<lparr>checker = Some ''SUCCESS'', components = None\<rparr>)])], None]
        = Inr (st2, messages))"
  using replay_same_alerts [of initial_state initial_state default_config
      "[Some [(''1'', [(''web'', \<lparr>checker = Some ''SUCCESS'', components = None\<rparr>)])], None]"]
  by (simp add: initial_state_def)

text \<open>
  C10. On a tick with a new tick id, the delta record of a service name that is not in the
  payload is left as it was: the pass returns, and the delta store it leaves agrees with
  the one it found at every such name.
\<close>

theorem absent_service_delta_unchanged:
  assumes "last_tick st \<noteq> Some t" and "svcs \<noteq> []" and "name \<notin> fst ` set svcs"
  shows "\<exists>st' messages.
           monitor_services_step cfg st (Some ((t, svcs) # other)) = Inr (st', messages)
           \<and> prev_deltas st' name = prev_deltas st name"
proof -
  from new_tick_step [OF assms(2) assms(1)] obtain messages where
    "monitor_services_step cfg st (Some ((t, svcs) # other)) =
       Inr (\<lparr>last_service_states = Map.empty,
             prev_deltas = store_all (new_delta (last_service_states st)) svcs (prev_deltas st),
             last_tick = Some t\<rparr>, messages)"
    by blast
  with assms(3) show ?thesis by (simp add: store_all_absent)
qed

theorem absent_service_delta_unchanged_witness:
  "last_tick \<lparr>last_service_states = Map.empty,
              prev_deltas = [''db'' \<mapsto> \<lparr>attack_delta = Some 3, defense_delta = None\<rparr>],
              last_tick = Some ''1''\<rparr> \<noteq> Some ''2''
   \<and> [(''web'', \<lparr>checker = Some ''SUCCESS'', components = None\<rparr>)] \<noteq> []
   \<and> ''db'' \<notin> fst ` set [(''web'', \<lparr>checker = Some ''SUCCESS'', components = None\<rparr>)]
   \<and> (\<exists>st' messages.
         monitor_services_step default_config
           \<lparr>last_service_states = Map.empty,
            prev_deltas = [''db'' \<mapsto> \<lparr>attack_delta = Some 3, defense_delta = None\<rparr>],
            last_tick = Some ''1''\<rparr>
           (Some [(''2'', [(''web'', \<lparr>checker = Some ''SUCCESS'', components = None\<rparr>)])])
         = Inr (st', messages)
         \<and> prev_deltas st' ''db'' = Some \<lparr>attack_delta = Some 3, defense_delta = None\<rparr>)"
  using absent_service_delta_unchanged
    [of "\<lparr>last_service_states = Map.empty,
          prev_deltas = [''db'' \<mapsto> \<lparr>attack_delta = Some 3, defense_delta = None\<rparr>],
          last_tick = Some ''1''\<rparr>" "''2''"
        "[(''web'', \<lparr>checker = Some ''SUCCESS'', components = None\<rparr>)]" "''db''" default_config "[]"]
  by simp

end
